theory Spec2Isabelle
  imports Main
begin

section \<open>Reference-file names in the appending notebook\<close>

text \<open>
  The notebook \<^verbatim>\<open>notebooks/advanced/appending.ipynb\<close> names the per-file reference
  documents in two places. The writer,
  \<^verbatim>\<open>
  def generate_json_reference(fil, output_dir: str):
      ...
      fname = fil.split("/")[-1].strip(".nc")
      outf = f"{output_dir}/{fname}.json"
  \<close>
  splits first and strips second; the cells that combine and append,
  \<^verbatim>\<open>
  output_files = [
      f"{temp_dir}/{f.strip('.nc').split('/')[-1]}.json" for f in first_24_hrs
  ]
  \<close>
  strip first and split second. Python strings are modelled as \<^typ>\<open>string\<close>.
\<close>

subsection \<open>The two string methods\<close>

text \<open>
  \<^verbatim>\<open>str.strip(chars)\<close> treats its argument as a set of characters: it removes every
  leading and every trailing character that occurs in \<open>chars\<close>, and stops on each side at
  the first character that does not.
\<close>

definition lstrip :: "string \<Rightarrow> string \<Rightarrow> string" where
  "lstrip chars s = dropWhile (\<lambda>c. c \<in> set chars) s"

definition rstrip :: "string \<Rightarrow> string \<Rightarrow> string" where
  "rstrip chars s = rev (dropWhile (\<lambda>c. c \<in> set chars) (rev s))"

definition strip :: "string \<Rightarrow> string \<Rightarrow> string" where
  "strip chars s = rstrip chars (lstrip chars s)"

text \<open>
  \<^verbatim>\<open>str.split(sep)\<close> with a one-character separator, as the notebook calls it
  (\<^verbatim>\<open>split("/")\<close>): the pieces between the occurrences of the separator, empty pieces
  included. The result always has at least one piece (\<^verbatim>\<open>"".split("/") == [""]\<close>).
\<close>

fun split :: "char \<Rightarrow> string \<Rightarrow> string list" where
  "split sep [] = [[]]"
| "split sep (c # cs) =
     (if c = sep then [] # split sep cs
      else (case split sep cs of
              [] \<Rightarrow> [[c]]
            | w # ws \<Rightarrow> (c # w) # ws))"

text \<open>
  The index \<^verbatim>\<open>[-1]\<close> selects the last piece; it raises \<^verbatim>\<open>IndexError\<close> on an empty
  list only, which \<open>split\<close> never returns (lemma \<open>split_not_Nil\<close> below), so the
  selection is \<^const>\<open>last\<close>.
\<close>

definition basename :: "string \<Rightarrow> string" where
  "basename f = last (split (CHR ''/'') f)"

subsection \<open>The writer and the readers\<close>

text \<open>The path \<^verbatim>\<open>outf\<close> that \<^verbatim>\<open>generate_json_reference(fil, output_dir)\<close> writes and returns.\<close>

definition generate_json_reference :: "string \<Rightarrow> string \<Rightarrow> string" where
  "generate_json_reference fil output_dir =
     (let fname = strip ''.nc'' (last (split (CHR ''/'') fil))
      in output_dir @ ''/'' @ fname @ ''.json'')"

text \<open>One element of the list comprehension of the combine and append cells, for the
  input path \<open>f\<close>.\<close>

definition output_file :: "string \<Rightarrow> string \<Rightarrow> string" where
  "output_file temp_dir f =
     temp_dir @ ''/'' @ last (split (CHR ''/'') (strip ''.nc'' f)) @ ''.json''"

section \<open>Writing the combined index\<close>

text \<open>
  Both the combine cell and the append cell of the notebook end by persisting the
  combined index under one fixed name:
  \<^verbatim>\<open>
  multi_kerchunk = mzz.translate()

  # Write kerchunk .json record.
  output_fname = "ARG_combined.json"
  with open(f"{output_fname}", "wb") as f:
      f.write(ujson.dumps(multi_kerchunk).encode())
  \<close>
  The append cell writes to the very file that holds the index it appended to. The file
  system is a map from paths to contents.
\<close>

type_synonym files = "string \<rightharpoonup> string"

text \<open>
  \<^verbatim>\<open>open(path, "wb")\<close> creates the file, or truncates it to length zero when it
  exists; the prior content is gone before the first byte is written.
\<close>

definition open_wb :: "files \<Rightarrow> string \<Rightarrow> files" where
  "open_wb fs path = fs(path \<mapsto> [])"

text \<open>
  \<^verbatim>\<open>f.write(data)\<close> puts the bytes of \<open>data\<close> at the end of the file, in order. A write
  that fails partway is one where the device takes only some of the bytes: \<open>room\<close> is the
  number of bytes it still takes. The result is the file system and whether the write
  completed (\<open>False\<close>: the exception that aborts the cell).
\<close>

fun write_bytes :: "nat \<Rightarrow> files \<Rightarrow> string \<Rightarrow> string \<Rightarrow> files \<times> bool" where
  "write_bytes room fs path [] = (fs, True)"
| "write_bytes 0 fs path (b # bs) = (fs, False)"
| "write_bytes (Suc room) fs path (b # bs) =
     write_bytes room
       (fs(path \<mapsto> (case fs path of None \<Rightarrow> [b] | Some written \<Rightarrow> written @ [b])))
       path bs"

text \<open>
  The last three lines of the cell: \<open>payload\<close> is
  \<^verbatim>\<open>ujson.dumps(multi_kerchunk).encode()\<close>, the serialised combined index.
\<close>

definition write_record :: "files \<Rightarrow> string \<Rightarrow> string \<Rightarrow> nat \<Rightarrow> files \<times> bool" where
  "write_record fs output_fname payload room =
     write_bytes room (open_wb fs output_fname) output_fname payload"

section \<open>Facts\<close>

subsection \<open>Facts about \<open>split\<close> and \<open>strip\<close>\<close>

lemma split_not_Nil: "split sep s \<noteq> []"
  by (induction s) (auto split: list.splits)

lemma length_split: "length (split sep s) = Suc (length (filter (\<lambda>c. c = sep) s))"
  by (induction s) (auto split: list.splits simp: split_not_Nil)

text \<open>The last piece is what follows the last separator.\<close>

lemma last_split:
  "last (split sep s) = rev (takeWhile (\<lambda>c. c \<noteq> sep) (rev s))"
proof (induction s)
  case Nil
  show ?case by simp
next
  case (Cons c cs)
  show ?case
  proof (cases "c = sep")
    case True
    then show ?thesis
      using Cons by (simp add: split_not_Nil takeWhile_append)
  next
    case False
    obtain w ws where ws: "split sep cs = w # ws"
      using split_not_Nil [of sep cs] by (cases "split sep cs") auto
    show ?thesis
    proof (cases "sep \<in> set cs")
      case True
      then have "filter (\<lambda>c. c = sep) cs \<noteq> []"
        by (simp add: filter_empty_conv)
      then have "length (split sep cs) \<ge> 2"
        by (cases "filter (\<lambda>c. c = sep) cs") (simp_all add: length_split)
      with ws have "ws \<noteq> []" by auto
      with ws False have "last (split sep (c # cs)) = last (split sep cs)" by simp
      also have "\<dots> = rev (takeWhile (\<lambda>c. c \<noteq> sep) (rev cs))" by (rule Cons)
      also have "\<dots> = rev (takeWhile (\<lambda>c. c \<noteq> sep) (rev (c # cs)))"
        using True by (auto simp: takeWhile_append)
      finally show ?thesis .
    next
      case notin: False
      then have "filter (\<lambda>c. c = sep) cs = []"
        by (auto simp: filter_empty_conv)
      then have "length (split sep cs) = 1" by (simp add: length_split)
      with ws have nil: "ws = []" by simp
      from notin have tw: "takeWhile (\<lambda>c. c \<noteq> sep) (rev cs) = rev cs"
        by (auto simp: takeWhile_eq_all_conv)
      from Cons ws nil tw have "w = cs" by simp
      with ws nil False have "last (split sep (c # cs)) = c # cs" by simp
      also have "\<dots> = rev (takeWhile (\<lambda>c. c \<noteq> sep) (rev (c # cs)))"
        using notin False by (simp add: takeWhile_append tw)
      finally show ?thesis .
    qed
  qed
qed

lemma last_split_no_sep: "sep \<notin> set (last (split sep s))"
proof
  assume "sep \<in> set (last (split sep s))"
  then have "sep \<in> set (takeWhile (\<lambda>c. c \<noteq> sep) (rev s))"
    by (simp add: last_split)
  then show False by (auto dest: set_takeWhileD)
qed

text \<open>Every path is a directory part, empty or ending in the separator, followed by its
  last piece.\<close>

lemma path_decompose:
  obtains p where "s = p @ last (split sep s)" and "p = [] \<or> last p = sep"
proof
  let ?d = "dropWhile (\<lambda>c. c \<noteq> sep) (rev s)"
  have "rev (takeWhile (\<lambda>c. c \<noteq> sep) (rev s) @ ?d) = rev (rev s)"
    by (simp only: takeWhile_dropWhile_id)
  then have "rev ?d @ rev (takeWhile (\<lambda>c. c \<noteq> sep) (rev s)) = s"
    by (simp only: rev_append rev_rev_ident)
  then show "s = rev ?d @ last (split sep s)" by (simp only: last_split)
  show "rev ?d = [] \<or> last (rev ?d) = sep"
  proof (cases "?d = []")
    case True
    then show ?thesis by simp
  next
    case False
    then have "\<not> (hd ?d \<noteq> sep)" by (rule hd_dropWhile)
    with False show ?thesis by (simp add: last_rev)
  qed
qed

lemma last_split_append:
  assumes "sep \<notin> set r" and "q = [] \<or> last q = sep"
  shows "last (split sep (q @ r)) = r"
proof -
  from assms(1) have all: "\<forall>c\<in>set (rev r). c \<noteq> sep" by auto
  have "takeWhile (\<lambda>c. c \<noteq> sep) (rev q) = []"
  proof (cases "q = []")
    case True
    then show ?thesis by simp
  next
    case False
    with assms(2) have "hd (rev q) = sep" by (simp add: hd_rev)
    with False show ?thesis by (cases "rev q") auto
  qed
  with all show ?thesis by (simp add: last_split takeWhile_append)
qed

text \<open>Stripping only shortens: what is left is a piece of the argument.\<close>

lemma set_lstrip: "set (lstrip chars s) \<subseteq> set s"
  by (auto simp: lstrip_def dest: set_dropWhileD)

lemma set_rstrip: "set (rstrip chars s) \<subseteq> set s"
  by (auto simp: rstrip_def dest: set_dropWhileD)

lemma lstrip_keeps_head: "x \<notin> set chars \<Longrightarrow> lstrip chars (x # b) = x # b"
  by (simp add: lstrip_def)

lemma lstrip_append_kept:
  "x \<notin> set chars \<Longrightarrow> lstrip chars (p @ x # b) = lstrip chars p @ x # b"
  by (simp add: lstrip_def dropWhile_append)

lemma rstrip_append_kept:
  "x \<notin> set chars \<Longrightarrow> rstrip chars (q @ x # b) = q @ rstrip chars (x # b)"
  by (simp add: rstrip_def dropWhile_append)

lemma lstrip_last:
  assumes "sep \<notin> set chars" and "p = [] \<or> last p = sep"
  shows "lstrip chars p = [] \<or> last (lstrip chars p) = sep"
proof (cases "p = []")
  case True
  then show ?thesis by (simp add: lstrip_def)
next
  case False
  with assms(2) have l: "last p = sep" by simp
  have "dropWhile (\<lambda>c. c \<in> set chars) p \<noteq> []"
    using False l assms(1) by (metis dropWhile_eq_Nil_conv last_in_set)
  then have "last (dropWhile (\<lambda>c. c \<in> set chars) p) = last p"
    by (metis last_appendR takeWhile_dropWhile_id)
  with l show ?thesis by (simp add: lstrip_def)
qed

text \<open>
  The heart of the matter. When the last piece of the path begins with a character that
  \<open>strip\<close> keeps, stripping the whole path shortens the directory part from the left and
  the last piece from the right, and never reaches across the last separator.
\<close>

lemma strip_then_split:
  assumes sep: "sep \<notin> set chars"
    and b: "last (split sep f) = x # b" and x: "x \<notin> set chars"
  shows "last (split sep (strip chars f)) = strip chars (last (split sep f))"
proof -
  obtain p where p: "f = p @ x # b" "p = [] \<or> last p = sep"
    using path_decompose [of f sep] b by metis
  have "strip chars f = lstrip chars p @ rstrip chars (x # b)"
    using p(1) x by (simp add: strip_def lstrip_append_kept rstrip_append_kept)
  moreover have "sep \<notin> set (rstrip chars (x # b))"
    using last_split_no_sep [of sep f] b set_rstrip [of chars "x # b"] by auto
  moreover have "lstrip chars p = [] \<or> last (lstrip chars p) = sep"
    using sep p(2) by (rule lstrip_last)
  ultimately have "last (split sep (strip chars f)) = rstrip chars (x # b)"
    by (simp add: last_split_append)
  also have "\<dots> = strip chars (x # b)"
    using x by (simp add: strip_def lstrip_keeps_head)
  finally show ?thesis using b by simp
qed

text \<open>
  Without that condition the two orders disagree. For \<^verbatim>\<open>data/nc_file.nc\<close> the writer
  strips the basename \<^verbatim>\<open>nc_file.nc\<close> on both sides and writes \<^verbatim>\<open>_file.json\<close>, while
  the readers strip the whole path, whose first character \<open>d\<close> stays, and look for
  \<^verbatim>\<open>nc_file.json\<close>.
\<close>

lemma strip_order_matters:
  "generate_json_reference ''data/nc_file.nc'' ''/tmp/t'' = ''/tmp/t/_file.json''"
  "output_file ''/tmp/t'' ''data/nc_file.nc'' = ''/tmp/t/nc_file.json''"
  by (simp_all add: generate_json_reference_def output_file_def strip_def lstrip_def rstrip_def)

subsection \<open>Facts about the write\<close>

lemma write_bytes_content:
  "fs path = Some written \<Longrightarrow>
   write_bytes room fs path data =
     (fs(path \<mapsto> written @ take room data), length data \<le> room)"
proof (induction room fs path data arbitrary: written rule: write_bytes.induct)
  case (1 room fs path)
  then show ?case by (simp add: map_upd_triv)
next
  case (2 fs path b bs)
  then show ?case by (simp add: map_upd_triv)
next
  case (3 room fs path b bs)
  let ?fs = "fs(path \<mapsto> (case fs path of None \<Rightarrow> [b] | Some w \<Rightarrow> w @ [b]))"
  have now: "?fs path = Some (written @ [b])" using "3.prems" by simp
  have "write_bytes (Suc room) fs path (b # bs) = write_bytes room ?fs path bs"
    by simp
  also have "\<dots> = (?fs(path \<mapsto> (written @ [b]) @ take room bs), length bs \<le> room)"
    using now by (rule "3.IH")
  also have "\<dots> = (fs(path \<mapsto> written @ take (Suc room) (b # bs)),
      length (b # bs) \<le> Suc room)"
    by simp
  finally show ?case .
qed

section \<open>Claims\<close>

text \<open>
  Claim C10. For every input path whose basename (the piece after the last \<open>/\<close>) begins
  with a character outside \<open>.\<close>, \<open>n\<close>, \<open>c\<close>, the reference-file path that the combine
  and append cells rebuild with \<^verbatim>\<open>f.strip('.nc').split('/')[-1]\<close> equals the path that
  \<^verbatim>\<open>generate_json_reference\<close> wrote with \<^verbatim>\<open>fil.split('/')[-1].strip('.nc')\<close>, although
  \<open>strip\<close> removes a set of characters and the two expressions apply \<open>strip\<close> and
  \<open>split\<close> in opposite orders.
\<close>

theorem output_file_is_written_file:
  assumes "basename f = x # b" and "x \<notin> {CHR ''.'', CHR ''n'', CHR ''c''}"
  shows "output_file temp_dir f = generate_json_reference f temp_dir"
proof -
  have "CHR ''/'' \<notin> set ''.nc''" by simp
  moreover have "last (split (CHR ''/'') f) = x # b"
    using assms(1) by (simp add: basename_def)
  moreover have "x \<notin> set ''.nc''" using assms(2) by simp
  ultimately have
    "last (split (CHR ''/'') (strip ''.nc'' f)) = strip ''.nc'' (last (split (CHR ''/'') f))"
    by (rule strip_then_split)
  then show ?thesis
    by (simp add: output_file_def generate_json_reference_def)
qed

theorem output_file_is_written_file_witness:
  "basename ''s3://smn-ar-wrf/DATA/WRF/DET/2022/12/31/12/WRFDETAR_01H_20221231_12_000.nc''
     = CHR ''W'' # ''RFDETAR_01H_20221231_12_000.nc''
   \<and> CHR ''W'' \<notin> {CHR ''.'', CHR ''n'', CHR ''c''}
   \<and> output_file ''/tmp/tmpk3'' ''s3://smn-ar-wrf/DATA/WRF/DET/2022/12/31/12/WRFDETAR_01H_20221231_12_000.nc''
     = generate_json_reference ''s3://smn-ar-wrf/DATA/WRF/DET/2022/12/31/12/WRFDETAR_01H_20221231_12_000.nc'' ''/tmp/tmpk3''
   \<and> generate_json_reference ''s3://smn-ar-wrf/DATA/WRF/DET/2022/12/31/12/WRFDETAR_01H_20221231_12_000.nc'' ''/tmp/tmpk3''
     = ''/tmp/tmpk3/WRFDETAR_01H_20221231_12_000.json''"
proof -
  have b: "basename ''s3://smn-ar-wrf/DATA/WRF/DET/2022/12/31/12/WRFDETAR_01H_20221231_12_000.nc''
     = CHR ''W'' # ''RFDETAR_01H_20221231_12_000.nc''"
    by (simp add: basename_def)
  have x: "CHR ''W'' \<notin> {CHR ''.'', CHR ''n'', CHR ''c''}" by simp
  have g: "generate_json_reference ''s3://smn-ar-wrf/DATA/WRF/DET/2022/12/31/12/WRFDETAR_01H_20221231_12_000.nc'' ''/tmp/tmpk3''
     = ''/tmp/tmpk3/WRFDETAR_01H_20221231_12_000.json''"
    by (simp add: generate_json_reference_def strip_def lstrip_def rstrip_def)
  from output_file_is_written_file [OF b x, of "''/tmp/tmpk3''"] b x g
  show ?thesis by blast
qed

text \<open>
  Claim C2, as stated: the append is atomic with respect to a write that fails partway;
  afterwards the persisted combined index is either the fully appended state or the
  prior state, never anything else. The cell opens the file that holds the prior index
  with mode \<open>wb\<close>, so this fails: with the prior index \<open>refs:0-23\<close> on disk and six
  bytes of the new index \<open>refs:0-47\<close> written before the failure, the file holds
  \<open>refs:0\<close>, which is neither.
\<close>

theorem append_write_not_atomic:
  "\<not> (fst (write_record [''ARG_combined.json'' \<mapsto> ''refs:0-23'']
              ''ARG_combined.json'' ''refs:0-47'' 6) ''ARG_combined.json''
          = Some ''refs:0-47''
      \<or> fst (write_record [''ARG_combined.json'' \<mapsto> ''refs:0-23'']
              ''ARG_combined.json'' ''refs:0-47'' 6) ''ARG_combined.json''
          = [''ARG_combined.json'' \<mapsto> ''refs:0-23''] ''ARG_combined.json'')"
  by (simp add: write_record_def open_wb_def write_bytes_content [where written = "[]"])

text \<open>
  Claim C2, amended: after an append whose write stops after \<open>room\<close> bytes, the persisted
  file holds exactly the first \<open>room\<close> bytes of the serialised appended index, whatever
  it held before; the write reports success exactly when all bytes were taken, and then
  the file is the fully appended state.
\<close>

theorem append_write_leaves_prefix:
  "fst (write_record fs output_fname payload room) output_fname = Some (take room payload)
   \<and> snd (write_record fs output_fname payload room) = (length payload \<le> room)"
  by (simp add: write_record_def open_wb_def write_bytes_content [where written = "[]"])

end
